theory Spec2Isabelle
  imports Main "HOL-Library.Multiset" "HOL-Library.Log_Nat"
begin

section \<open>Element.Dimensions: size, scroll and position of a DOM element\<close>

text \<open>
  The script \<^verbatim>\<open>Source/Element/Element.Dimensions.js\<close> adds seven methods to every
  element: \<^verbatim>\<open>scrollTo\<close>, \<^verbatim>\<open>getSize\<close>, \<^verbatim>\<open>getScroll\<close>, \<^verbatim>\<open>getPosition\<close>, \<^verbatim>\<open>getTop\<close>,
  \<^verbatim>\<open>getLeft\<close> and \<^verbatim>\<open>getCoordinates\<close>. They read (and \<^verbatim>\<open>scrollTo\<close> writes) properties
  of live objects, so the model is an explicit store of objects addressed by reference,
  and every method takes the store and returns its result together with the store it leaves.
\<close>

subsection \<open>Numbers\<close>

text \<open>
  A JavaScript number is an IEEE 754 double. Every finite double is an integer multiple
  of \<open>2\<^sup>-\<^sup>1\<^sup>0\<^sup>7\<^sup>4\<close> with at most 53 significant bits and a magnitude below
  \<open>2\<^sup>1\<^sup>0\<^sup>2\<^sup>4\<close>, and it is kept here as that integer multiple: the double \<open>1\<close> is
  the integer \<open>2\<^sup>1\<^sup>0\<^sup>7\<^sup>4\<close>, the double \<open>0.5\<close> is \<open>2\<^sup>1\<^sup>0\<^sup>7\<^sup>3\<close>. The two zeros
  of IEEE 754 are one value here; the script cannot tell them apart.

  \<open>round53\<close> rounds an integer to 53 significant bits, to nearest and on a tie to the
  even significand, as \<^verbatim>\<open>+\<close> and \<^verbatim>\<open>-\<close> round their exact result.
\<close>

definition round53 :: "int \<Rightarrow> int" where
  "round53 M =
     (let a = \<bar>M\<bar>;
          s = nat (bitlen a - 53);
          q = a div 2 ^ s;
          r = a mod 2 ^ s;
          n = (if 2 * r < 2 ^ s then q
               else if 2 ^ s < 2 * r then q + 1
               else if even q then q else q + 1)
      in sgn M * (n * 2 ^ s))"

text \<open>
  In these units: the double \<open>1\<close>, and \<open>2\<^sup>1\<^sup>0\<^sup>2\<^sup>4\<close>, the least magnitude that is no
  finite double (a result that rounds to it or beyond is an infinity).
\<close>

definition scale :: int where
  "scale = 2 ^ 1074"

definition limit :: int where
  "limit = 2 ^ 2098"

definition is_double :: "int \<Rightarrow> bool" where
  "is_double M \<longleftrightarrow> \<bar>M\<bar> < limit \<and> round53 M = M"

typedef double = "{M :: int. is_double M}"
  morphisms units Double
  by (rule exI [of _ 0]) (simp add: is_double_def round53_def limit_def)

text \<open>The double of an integer, and the integer of a double that is one.\<close>

definition dbl :: "int \<Rightarrow> double" where
  "dbl n = Double (n * scale)"

definition whole :: "double \<Rightarrow> bool" where
  "whole a \<longleftrightarrow> scale dvd units a"

definition int_of :: "double \<Rightarrow> int" where
  "int_of a = units a div scale"

text \<open>
  The values of the expressions of the script: \<^verbatim>\<open>undefined\<close>, \<^verbatim>\<open>NaN\<close>, a finite number,
  or an infinity, which a sum of finite numbers reaches by overflow.
\<close>

datatype jsval = Undefined | NaN | Num double | PosInfinity | NegInfinity

definition round_double :: "int \<Rightarrow> jsval" where
  "round_double M =
     (let r = round53 M in
      if limit \<le> r then PosInfinity
      else if r \<le> - limit then NegInfinity
      else Num (Double r))"

text \<open>\<^verbatim>\<open>a + b\<close> and \<^verbatim>\<open>a - b\<close>; \<^verbatim>\<open>undefined\<close> converts to \<^verbatim>\<open>NaN\<close>.\<close>

fun js_add :: "jsval \<Rightarrow> jsval \<Rightarrow> jsval" where
  "js_add (Num a) (Num b) = round_double (units a + units b)"
| "js_add (Num a) PosInfinity = PosInfinity"
| "js_add (Num a) NegInfinity = NegInfinity"
| "js_add PosInfinity (Num b) = PosInfinity"
| "js_add NegInfinity (Num b) = NegInfinity"
| "js_add PosInfinity PosInfinity = PosInfinity"
| "js_add NegInfinity NegInfinity = NegInfinity"
| "js_add a b = NaN"

fun js_sub :: "jsval \<Rightarrow> jsval \<Rightarrow> jsval" where
  "js_sub (Num a) (Num b) = round_double (units a - units b)"
| "js_sub (Num a) PosInfinity = NegInfinity"
| "js_sub (Num a) NegInfinity = PosInfinity"
| "js_sub PosInfinity (Num b) = PosInfinity"
| "js_sub NegInfinity (Num b) = NegInfinity"
| "js_sub PosInfinity NegInfinity = PosInfinity"
| "js_sub NegInfinity PosInfinity = NegInfinity"
| "js_sub a b = NaN"

text \<open>\<^verbatim>\<open>a == b\<close> on these values: \<^verbatim>\<open>NaN\<close> equals nothing, itself included.\<close>

fun js_eq :: "jsval \<Rightarrow> jsval \<Rightarrow> bool" where
  "js_eq (Num a) (Num b) = (a = b)"
| "js_eq PosInfinity PosInfinity = True"
| "js_eq NegInfinity NegInfinity = True"
| "js_eq Undefined Undefined = True"
| "js_eq a b = False"

subsection \<open>Objects and the store\<close>

text \<open>
  The properties the script touches are numeric attributes of the DOM: each holds a
  finite number, or \<^verbatim>\<open>NaN\<close>, or is missing (\<^verbatim>\<open>undefined\<close>).
\<close>

datatype attr = Missing | NotANumber | Number double

definition val :: "attr \<Rightarrow> jsval" where
  "val v = (case v of Missing \<Rightarrow> Undefined | NotANumber \<Rightarrow> NaN | Number a \<Rightarrow> Num a)"

definition is_number :: "attr \<Rightarrow> bool" where
  "is_number v = (case v of Number a \<Rightarrow> True | _ \<Rightarrow> False)"

text \<open>\<^verbatim>\<open>v || 0\<close>: \<^verbatim>\<open>undefined\<close>, \<^verbatim>\<open>NaN\<close> and \<^verbatim>\<open>0\<close> are falsy and give \<^verbatim>\<open>0\<close>.\<close>

definition or_zero :: "attr \<Rightarrow> double" where
  "or_zero v = (case v of Number a \<Rightarrow> (if units a = 0 then dbl 0 else a) | _ \<Rightarrow> dbl 0)"

type_synonym ref = nat

record element =
  offsetLeft :: attr
  offsetTop :: attr
  offsetParent :: "ref option"
  offsetWidth :: attr
  offsetHeight :: attr
  clientWidth :: attr
  clientHeight :: attr
  scrollWidth :: attr
  scrollHeight :: attr
  scrollLeft :: attr
  scrollTop :: attr

text \<open>
  \<^verbatim>\<open>offsetParent\<close> is a reference to another element, or \<^verbatim>\<open>null\<close>/\<^verbatim>\<open>undefined\<close>
  (\<open>None\<close>: both are falsy, and the script only tests it). A reference always points to
  an object, so the store is a total function.
\<close>

type_synonym heap = "ref \<Rightarrow> element"

subsection \<open>The argument \<^verbatim>\<open>overflown\<close>\<close>

text \<open>
  \<^verbatim>\<open>getPosition\<close>, \<^verbatim>\<open>getTop\<close>, \<^verbatim>\<open>getLeft\<close> and \<^verbatim>\<open>getCoordinates\<close> take an optional
  argument: nothing, one scrolling container, or an array of them.
\<close>

datatype overflown = Absent | Single ref | Array "ref list"

text \<open>
  Modelled from the spec: \<^verbatim>\<open>$splat\<close> is a function of the framework's core, which is
  not part of \<^verbatim>\<open>Element.Dimensions.js\<close>. The specification says of the container
  argument: an ordered sequence of zero or more references; a single reference passed
  rather than a sequence is treated as a one-element sequence; an absent list is the
  empty one.
\<close>

definition splat :: "overflown \<Rightarrow> ref list" where
  "splat obj = (case obj of Absent \<Rightarrow> [] | Single c \<Rightarrow> [c] | Array cs \<Rightarrow> cs)"

subsection \<open>\<^verbatim>\<open>getPosition\<close>\<close>

text \<open>
  \<^verbatim>\<open>
  do {
      left += el.offsetLeft || 0;
      top += el.offsetTop || 0;
      el = el.offsetParent;
  } while (el);
  \<close>
  The body runs before the test, and the test is on the new \<^verbatim>\<open>el\<close>. Nothing bounds
  the number of rounds: on a store whose \<^verbatim>\<open>offsetParent\<close> references form a cycle the
  loop never ends, and \<open>walk\<close> is \<open>None\<close>.
\<close>

partial_function (option) walk :: "heap \<Rightarrow> ref \<Rightarrow> jsval \<Rightarrow> jsval \<Rightarrow> (jsval \<times> jsval) option" where
  "walk d el left' top' =
     (let left' = js_add left' (Num (or_zero (offsetLeft (d el))));
          top' = js_add top' (Num (or_zero (offsetTop (d el))))
      in case offsetParent (d el) of
           Some el' \<Rightarrow> walk d el' left' top'
         | None \<Rightarrow> Some (left', top'))"

text \<open>
  \<^verbatim>\<open>
  overflown.each(function(element){
      left -= element.scrollLeft || 0;
      top -= element.scrollTop || 0;
  });
  \<close>
  \<^verbatim>\<open>each\<close> calls the function on every entry of the array, first to last.
\<close>

definition each_scroll :: "heap \<Rightarrow> ref list \<Rightarrow> jsval \<times> jsval \<Rightarrow> jsval \<times> jsval" where
  "each_scroll d overflown' acc =
     fold (\<lambda>element (left', top').
             (js_sub left' (Num (or_zero (scrollLeft (d element)))),
              js_sub top' (Num (or_zero (scrollTop (d element))))))
          overflown' acc"

record point =
  x :: jsval
  y :: jsval

definition getPosition :: "heap \<Rightarrow> ref \<Rightarrow> overflown \<Rightarrow> (point \<times> heap) option" where
  "getPosition d this overflown' =
     (let overflown' = splat overflown' in
      case walk d this (Num (dbl 0)) (Num (dbl 0)) of
        None \<Rightarrow> None
      | Some lt \<Rightarrow>
          (case each_scroll d overflown' lt of
             (left', top') \<Rightarrow> Some (\<lparr>x = left', y = top'\<rparr>, d)))"

definition getTop :: "heap \<Rightarrow> ref \<Rightarrow> overflown \<Rightarrow> (jsval \<times> heap) option" where
  "getTop d this overflown' =
     (case getPosition d this overflown' of
        None \<Rightarrow> None
      | Some (position, d') \<Rightarrow> Some (y position, d'))"

definition getLeft :: "heap \<Rightarrow> ref \<Rightarrow> overflown \<Rightarrow> (jsval \<times> heap) option" where
  "getLeft d this overflown' =
     (case getPosition d this overflown' of
        None \<Rightarrow> None
      | Some (position, d') \<Rightarrow> Some (x position, d'))"

subsection \<open>\<^verbatim>\<open>scrollTo\<close>, \<^verbatim>\<open>getScroll\<close>, \<^verbatim>\<open>getSize\<close>\<close>

text \<open>
  \<^verbatim>\<open>this.scrollLeft = x; this.scrollTop = y;\<close> What such an assignment leaves in
  the property is decided by the object that receives it, not by the script: an ordinary
  object keeps the value written, an element hands it to the browser, which scrolls
  as far as the content allows. The receiving side is a parameter of the model: given
  the object as it is and the value written, it tells the value the property holds
  afterwards. The method returns nothing, so its outcome is the store.
\<close>

record host =
  put_scrollLeft :: "element \<Rightarrow> attr \<Rightarrow> attr"
  put_scrollTop :: "element \<Rightarrow> attr \<Rightarrow> attr"

definition scrollTo :: "host \<Rightarrow> heap \<Rightarrow> ref \<Rightarrow> attr \<Rightarrow> attr \<Rightarrow> heap" where
  "scrollTo h d this xv yv =
     (let d = d(this := (d this)\<lparr>scrollLeft := put_scrollLeft h (d this) xv\<rparr>);
          d = d(this := (d this)\<lparr>scrollTop := put_scrollTop h (d this) yv\<rparr>)
      in d)"

definition getScroll :: "heap \<Rightarrow> ref \<Rightarrow> point \<times> heap" where
  "getScroll d this = (\<lparr>x = val (scrollLeft (d this)), y = val (scrollTop (d this))\<rparr>, d)"

record size =
  client :: point
  offset :: point
  scroll :: point

definition getSize :: "heap \<Rightarrow> ref \<Rightarrow> size \<times> heap" where
  "getSize d this =
     (\<lparr>client = \<lparr>x = val (clientWidth (d this)), y = val (clientHeight (d this))\<rparr>,
       offset = \<lparr>x = val (offsetWidth (d this)), y = val (offsetHeight (d this))\<rparr>,
       scroll = \<lparr>x = val (scrollWidth (d this)), y = val (scrollHeight (d this))\<rparr>\<rparr>, d)"

subsection \<open>\<^verbatim>\<open>getCoordinates\<close>\<close>

record coordinates =
  top :: jsval
  left :: jsval
  width :: jsval
  height :: jsval
  right :: jsval
  bottom :: jsval

text \<open>
  The object is built with four keys; \<^verbatim>\<open>right\<close> and \<^verbatim>\<open>bottom\<close> are missing
  (\<^verbatim>\<open>undefined\<close>) until the two assignments that follow.
\<close>

definition getCoordinates :: "heap \<Rightarrow> ref \<Rightarrow> overflown \<Rightarrow> (coordinates \<times> heap) option" where
  "getCoordinates d this overflown' =
     (case getPosition d this overflown' of
        None \<Rightarrow> None
      | Some (position, d) \<Rightarrow>
          (let obj = \<lparr>top = y position, left = x position,
                      width = val (offsetWidth (d this)),
                      height = val (offsetHeight (d this)),
                      right = Undefined, bottom = Undefined\<rparr>;
               obj = obj\<lparr>right := js_add (left obj) (width obj)\<rparr>;
               obj = obj\<lparr>bottom := js_add (top obj) (height obj)\<rparr>
           in Some (obj, d)))"

subsection \<open>Well-formed parent chains\<close>

text \<open>
  \<open>is_chain d el ps\<close>: \<open>ps\<close> lists \<open>el\<close> and its \<^verbatim>\<open>offsetParent\<close> ancestors, nearest
  first, and the last of them has no \<^verbatim>\<open>offsetParent\<close>. Such a list exists exactly when
  the chain from \<open>el\<close> is finite, and then no element occurs twice on it.
\<close>

fun is_chain :: "heap \<Rightarrow> ref \<Rightarrow> ref list \<Rightarrow> bool" where
  "is_chain d el [] = False"
| "is_chain d el [p] = (p = el \<and> offsetParent (d p) = None)"
| "is_chain d el (p # q # ps) =
     (p = el \<and> offsetParent (d p) = Some q \<and> is_chain d q (q # ps))"

subsection \<open>Offsets that add up exactly\<close>

text \<open>
  The numbers the two loops of \<^verbatim>\<open>getPosition\<close> add and subtract, in the order of the
  loops, and the condition under which no step rounds: all of them are integers, and
  their absolute values add up to at most \<open>2\<^sup>5\<^sup>3\<close>.
\<close>

definition offsetLefts :: "heap \<Rightarrow> ref list \<Rightarrow> double list" where
  "offsetLefts d ps = map (\<lambda>p. or_zero (offsetLeft (d p))) ps"

definition offsetTops :: "heap \<Rightarrow> ref list \<Rightarrow> double list" where
  "offsetTops d ps = map (\<lambda>p. or_zero (offsetTop (d p))) ps"

definition scrollLefts :: "heap \<Rightarrow> ref list \<Rightarrow> double list" where
  "scrollLefts d cs = map (\<lambda>c. or_zero (scrollLeft (d c))) cs"

definition scrollTops :: "heap \<Rightarrow> ref list \<Rightarrow> double list" where
  "scrollTops d cs = map (\<lambda>c. or_zero (scrollTop (d c))) cs"

definition add_all :: "double list \<Rightarrow> jsval \<Rightarrow> jsval" where
  "add_all vs acc = fold (\<lambda>v acc. js_add acc (Num v)) vs acc"

definition sub_all :: "double list \<Rightarrow> jsval \<Rightarrow> jsval" where
  "sub_all vs acc = fold (\<lambda>v acc. js_sub acc (Num v)) vs acc"

definition small_ints :: "double list \<Rightarrow> bool" where
  "small_ints vs \<longleftrightarrow> list_all whole vs \<and> (\<Sum>v\<leftarrow>vs. \<bar>int_of v\<bar>) \<le> 2 ^ 53"

subsection \<open>Example stores and hosts\<close>

text \<open>
  An object that is not an element of any layout: none of the properties is there. The
  global object, which a non-strict function receives as \<^verbatim>\<open>this\<close> when it is called
  without a receiver, looks like this, and so does \<^verbatim>\<open>{}\<close>.
\<close>

definition blank :: element where
  "blank = \<lparr>offsetLeft = Missing, offsetTop = Missing, offsetParent = None,
     offsetWidth = Missing, offsetHeight = Missing,
     clientWidth = Missing, clientHeight = Missing,
     scrollWidth = Missing, scrollHeight = Missing,
     scrollLeft = Missing, scrollTop = Missing\<rparr>"

definition empty_page :: heap where
  "empty_page = (\<lambda>r. blank)"

text \<open>
  Three nested elements: \<open>0\<close> at \<open>(10, 5)\<close> in \<open>1\<close>, \<open>1\<close> at \<open>(20, 0)\<close> in \<open>2\<close>,
  \<open>2\<close> at \<open>(0, 15)\<close> with no \<^verbatim>\<open>offsetParent\<close>. Element \<open>0\<close> is 200 by 300. Objects
  \<open>3\<close> and \<open>4\<close> are scrolling containers, scrolled by \<open>(5, 5)\<close> and \<open>(7, 40)\<close>.
\<close>

definition nested3 :: heap where
  "nested3 = empty_page
     (0 := blank\<lparr>offsetLeft := Number (dbl 10), offsetTop := Number (dbl 5),
                 offsetParent := Some 1,
                 offsetWidth := Number (dbl 200), offsetHeight := Number (dbl 300)\<rparr>,
      1 := blank\<lparr>offsetLeft := Number (dbl 20), offsetTop := Number (dbl 0),
                 offsetParent := Some 2\<rparr>,
      2 := blank\<lparr>offsetLeft := Number (dbl 0), offsetTop := Number (dbl 15)\<rparr>,
      3 := blank\<lparr>scrollLeft := Number (dbl 5), scrollTop := Number (dbl 5)\<rparr>,
      4 := blank\<lparr>scrollLeft := Number (dbl 7), scrollTop := Number (dbl 40)\<rparr>)"

text \<open>A store on which every \<^verbatim>\<open>offsetParent\<close> is object \<open>0\<close>, itself included.\<close>

definition looped :: heap where
  "looped = (\<lambda>r. blank\<lparr>offsetParent := Some 0\<rparr>)"

text \<open>
  A store with numbers at the edge of the integers that a double holds exactly
  (\<open>2\<^sup>5\<^sup>3 = 9007199254740992\<close>): element \<open>0\<close> lies \<open>2\<^sup>5\<^sup>3\<close> to the right in element \<open>1\<close>,
  which lies \<open>1\<close> to the right; container \<open>2\<close> is scrolled by \<open>2\<^sup>5\<^sup>3\<close>, container \<open>3\<close> by
  \<open>1\<close>, container \<open>4\<close> by \<open>(5, 5)\<close>; every other object is blank.
\<close>

definition far :: heap where
  "far = empty_page
     (0 := blank\<lparr>offsetLeft := Number (dbl 9007199254740992), offsetParent := Some 1\<rparr>,
      1 := blank\<lparr>offsetLeft := Number (dbl 1)\<rparr>,
      2 := blank\<lparr>scrollLeft := Number (dbl 9007199254740992)\<rparr>,
      3 := blank\<lparr>scrollLeft := Number (dbl 1)\<rparr>,
      4 := blank\<lparr>scrollLeft := Number (dbl 5), scrollTop := Number (dbl 5)\<rparr>)"

text \<open>The double \<open>0.5\<close>.\<close>

definition half :: double where
  "half = Double (2 ^ 1073)"

text \<open>An ordinary object keeps what is assigned to its property.\<close>

definition plain_object :: host where
  "plain_object = \<lparr>put_scrollLeft = (\<lambda>e v. v), put_scrollTop = (\<lambda>e v. v)\<rparr>"

text \<open>
  An element in a browser: a number written to \<^verbatim>\<open>scrollLeft\<close> is brought into the range
  from \<open>0\<close> to \<^verbatim>\<open>scrollWidth - clientWidth\<close> (for \<^verbatim>\<open>scrollTop\<close>, to
  \<^verbatim>\<open>scrollHeight - clientHeight\<close>), anything else written counts as \<open>0\<close>, and an object
  without that range keeps the property as it was.
\<close>

definition clamp_scroll :: "attr \<Rightarrow> jsval \<Rightarrow> attr \<Rightarrow> attr" where
  "clamp_scroll old most v =
     (case most of
        Num m \<Rightarrow>
          (case v of
             Number a \<Rightarrow>
               (if units a \<le> 0 \<or> units m \<le> 0 then Number (dbl 0)
                else if units m < units a then Number m
                else Number a)
           | _ \<Rightarrow> Number (dbl 0))
      | _ \<Rightarrow> old)"

definition scrolling_box :: host where
  "scrolling_box =
     \<lparr>put_scrollLeft = (\<lambda>e v. clamp_scroll (scrollLeft e)
                           (js_sub (val (scrollWidth e)) (val (clientWidth e))) v),
      put_scrollTop = (\<lambda>e v. clamp_scroll (scrollTop e)
                          (js_sub (val (scrollHeight e)) (val (clientHeight e))) v)\<rparr>"

text \<open>
  Element \<open>0\<close> of this store shows 100 by 50 of a content of 101 by 52, so it can be
  scrolled by at most \<open>(1, 2)\<close>.
\<close>

definition narrow :: heap where
  "narrow = empty_page
     (0 := blank\<lparr>scrollWidth := Number (dbl 101), clientWidth := Number (dbl 100),
                 scrollHeight := Number (dbl 52), clientHeight := Number (dbl 50),
                 scrollLeft := Number (dbl 0), scrollTop := Number (dbl 0)\<rparr>)"

section \<open>Properties\<close>

subsection \<open>Rounding to 53 bits\<close>

text \<open>A number with at most 53 significant bits is not changed.\<close>

lemma round53_exact:
  assumes M: "M = m * 2 ^ e" and m: "\<bar>m\<bar> \<le> 2 ^ 53"
  shows "round53 M = M"
proof (cases "m = 0")
  case True
  with M show ?thesis by (simp add: round53_def)
next
  case False
  define a where "a = \<bar>M\<bar>"
  define s where "s = nat (bitlen a - 53)"
  have a: "a = \<bar>m\<bar> * 2 ^ e" by (simp add: a_def M abs_mult)
  have mpos: "0 < \<bar>m\<bar>" using False by simp
  have bl: "bitlen a = bitlen \<bar>m\<bar> + int e"
    unfolding a using bitlen_pow2 [OF mpos, of e] by simp
  have dvd: "2 ^ s dvd a"
  proof (cases "\<bar>m\<bar> < 2 ^ 53")
    case True
    then have "bitlen \<bar>m\<bar> \<le> 53" by (simp add: bitlen_le_iff_power)
    then have "s \<le> e" by (simp add: s_def bl)
    then have "(2::int) ^ s dvd 2 ^ e" by (simp add: le_imp_power_dvd)
    then show ?thesis unfolding a by (rule dvd_mult)
  next
    case False
    with m have me: "\<bar>m\<bar> = 2 ^ 53" by simp
    have "bitlen \<bar>m\<bar> = 54"
      unfolding me using bitlen_twopow_add_eq [of 0 53] by simp
    then have s: "s = e + 1" by (simp add: s_def bl)
    have "a = 2 ^ (53 + e)" by (simp add: a me power_add)
    moreover have "(2::int) ^ s dvd 2 ^ (53 + e)"
      by (rule le_imp_power_dvd) (simp add: s)
    ultimately show ?thesis by simp
  qed
  then have r: "a mod 2 ^ s = 0" by simp
  from dvd have q: "a div 2 ^ s * 2 ^ s = a" by simp
  have "round53 M = sgn M * (a div 2 ^ s * 2 ^ s)"
    using r by (simp add: round53_def Let_def a_def [symmetric] s_def [symmetric])
  also have "\<dots> = sgn M * a" by (simp only: q)
  also have "\<dots> = M" by (simp add: a_def sgn_mult_abs)
  finally show ?thesis .
qed

lemma div_pow2_less:
  fixes a :: int
  assumes "a < b * 2 ^ s"
  shows "a div 2 ^ s < b"
proof (rule ccontr)
  assume "\<not> a div 2 ^ s < b"
  then have "b \<le> a div 2 ^ s" by simp
  then have "b * 2 ^ s \<le> a div 2 ^ s * 2 ^ s"
    by (rule mult_right_mono) simp
  also have "\<dots> \<le> a div 2 ^ s * 2 ^ s + a mod 2 ^ s" by simp
  also have "\<dots> = a" by (rule div_mult_mod_eq)
  finally show False using assms by simp
qed

text \<open>The result has at most 53 significant bits, so rounding it again changes nothing.\<close>

lemma round53_form:
  "\<exists>n. round53 M = (sgn M * n) * 2 ^ nat (bitlen \<bar>M\<bar> - 53) \<and> 0 \<le> n \<and> n \<le> 2 ^ 53"
proof -
  define a where "a = \<bar>M\<bar>"
  define s where "s = nat (bitlen a - 53)"
  define q where "q = a div 2 ^ s"
  have a0: "0 \<le> a" by (simp add: a_def)
  have q0: "0 \<le> q" using a0 by (simp add: q_def pos_imp_zdiv_nonneg_iff)
  have "bitlen a \<le> 53 + int s" by (simp add: s_def)
  then have "a < 2 ^ (53 + s)"
    by (simp add: bitlen_le_iff_power nat_add_distrib)
  then have "a < 2 ^ 53 * 2 ^ s" by (simp add: power_add)
  then have q53: "q < 2 ^ 53"
    unfolding q_def by (rule div_pow2_less)
  have "round53 M = sgn M * (q * 2 ^ s) \<or> round53 M = sgn M * ((q + 1) * 2 ^ s)"
    by (simp add: round53_def Let_def a_def [symmetric] s_def [symmetric] q_def [symmetric])
  then show ?thesis
  proof
    assume "round53 M = sgn M * (q * 2 ^ s)"
    with q0 q53 show ?thesis
      unfolding a_def [symmetric] s_def [symmetric]
      by (intro exI [of _ q]) (simp add: mult.assoc)
  next
    assume "round53 M = sgn M * ((q + 1) * 2 ^ s)"
    with q0 q53 show ?thesis
      unfolding a_def [symmetric] s_def [symmetric]
      by (intro exI [of _ "q + 1"]) (simp add: mult.assoc)
  qed
qed

lemma round53_idem: "round53 (round53 M) = round53 M"
proof -
  obtain n where n: "round53 M = (sgn M * n) * 2 ^ nat (bitlen \<bar>M\<bar> - 53)"
    and "0 \<le> n" "n \<le> 2 ^ 53"
    using round53_form by blast
  then have "\<bar>sgn M * n\<bar> \<le> 2 ^ 53"
    by (simp add: abs_mult abs_sgn_eq)
  with n show ?thesis by (rule round53_exact)
qed

text \<open>Rounding does not depend on the scale.\<close>

lemma round53_scale: "round53 (m * 2 ^ e) = round53 m * 2 ^ e"
proof (cases "bitlen \<bar>m\<bar> \<le> 53")
  case True
  then have "\<bar>m\<bar> < 2 ^ 53" by (simp add: bitlen_le_iff_power)
  then have m: "\<bar>m\<bar> \<le> 2 ^ 53" by simp
  have "round53 m = m" using round53_exact [of m m 0] m by simp
  moreover have "round53 (m * 2 ^ e) = m * 2 ^ e" using m by (rule round53_exact [OF refl])
  ultimately show ?thesis by simp
next
  case False
  then have big: "53 < bitlen \<bar>m\<bar>" by simp
  then have mpos: "0 < \<bar>m\<bar>" using bitlen_eq_zero_iff [of "\<bar>m\<bar>"] by auto
  define a where "a = \<bar>m\<bar>"
  define s where "s = nat (bitlen a - 53)"
  have bl: "bitlen (a * 2 ^ e) = bitlen a + int e"
    using bitlen_pow2 [of a e] mpos by (simp add: a_def)
  have "0 \<le> bitlen a - 53" using big by (simp add: a_def)
  then have "nat (bitlen a - 53 + int e) = nat (bitlen a - 53) + nat (int e)"
    by (rule nat_add_distrib) simp
  moreover have "bitlen (a * 2 ^ e) - 53 = bitlen a - 53 + int e"
    by (simp only: bl)
  ultimately have s': "nat (bitlen (a * 2 ^ e) - 53) = s + e"
    by (simp only: s_def)
  have d: "a * 2 ^ e div 2 ^ (s + e) = a div 2 ^ s"
    by (simp add: power_add)
  have r: "a * 2 ^ e mod 2 ^ (s + e) = a mod 2 ^ s * 2 ^ e"
    by (simp add: power_add)
  have c1: "2 * (a mod 2 ^ s * 2 ^ e) < 2 ^ (s + e) \<longleftrightarrow> 2 * (a mod 2 ^ s) < 2 ^ s"
    by (simp add: power_add)
  have c2: "2 ^ (s + e) < 2 * (a mod 2 ^ s * 2 ^ e) \<longleftrightarrow> 2 ^ s < 2 * (a mod 2 ^ s)"
    by (simp add: power_add)
  have abs: "\<bar>m * 2 ^ e\<bar> = a * 2 ^ e" by (simp add: a_def abs_mult)
  have sg: "sgn (m * 2 ^ e) = sgn m" by (simp add: sgn_mult)
  show ?thesis
    unfolding round53_def Let_def abs sg s' d r c1 c2 a_def [symmetric] s_def [symmetric]
    by (simp add: power_add mult.assoc)
qed

subsection \<open>Doubles\<close>

lemma scale_pos: "0 < scale"
  by (simp add: scale_def)

lemma limit_scale: "limit = 2 ^ 1024 * scale"
proof -
  have "(2::int) ^ 1024 * 2 ^ 1074 = 2 ^ (1024 + 1074)" by (rule power_add [symmetric])
  also have "(1024::nat) + 1074 = 2098" by simp
  finally show ?thesis by (simp only: limit_def scale_def)
qed

lemma is_double_units: "is_double (units a)"
  using units [of a] by simp

lemma units_Double: "is_double M \<Longrightarrow> units (Double M) = M"
  by (simp add: Double_inverse)

lemma Double_units: "Double (units a) = a"
  by (rule units_inverse)

lemma is_double_int:
  assumes "round53 n = n" and "\<bar>n\<bar> < 2 ^ 1024"
  shows "is_double (n * scale)"
proof -
  have "\<bar>n\<bar> * scale < 2 ^ 1024 * scale"
    using assms(2) scale_pos by (rule mult_strict_right_mono)
  then have "\<bar>n * scale\<bar> < limit"
    using scale_pos by (simp only: limit_scale abs_mult abs_of_pos)
  moreover have "round53 (n * scale) = n * scale"
    by (simp only: scale_def round53_scale assms(1))
  ultimately show ?thesis by (simp only: is_double_def)
qed

lemma small_round53:
  assumes "\<bar>n\<bar> \<le> 2 ^ 53"
  shows "round53 n = n" and "\<bar>n\<bar> < 2 ^ 1024"
proof -
  show "round53 n = n" using round53_exact [of n n 0] assms by simp
  have "(2::int) ^ 53 < 2 ^ 1024" by (rule power_strict_increasing) simp_all
  with assms show "\<bar>n\<bar> < 2 ^ 1024" by (rule le_less_trans)
qed

lemma units_dbl:
  assumes "round53 n = n" and "\<bar>n\<bar> < 2 ^ 1024"
  shows "units (dbl n) = n * scale"
  unfolding dbl_def by (rule units_Double) (rule is_double_int [OF assms])

lemma units_dbl_small: "\<bar>n\<bar> \<le> 2 ^ 53 \<Longrightarrow> units (dbl n) = n * scale"
  by (rule units_dbl) (rule small_round53, assumption)+

lemma units_dbl_0: "units (dbl 0) = 0"
  using units_dbl_small [of 0] by simp

lemma whole_units: "whole a \<Longrightarrow> units a = int_of a * scale"
  by (simp add: whole_def int_of_def)

lemma whole_dbl: "whole a \<Longrightarrow> dbl (int_of a) = a"
  by (simp only: dbl_def whole_units [symmetric] Double_units)

lemma whole_dbl_small: "\<bar>n\<bar> \<le> 2 ^ 53 \<Longrightarrow> whole (dbl n)"
  by (simp only: whole_def units_dbl_small) simp

lemma int_of_dbl_small: "\<bar>n\<bar> \<le> 2 ^ 53 \<Longrightarrow> int_of (dbl n) = n"
  using scale_pos by (simp only: int_of_def units_dbl_small) simp

text \<open>The exact result is returned when it is a double, and rounded otherwise.\<close>

lemma round_double_Num:
  assumes "\<bar>round53 M\<bar> < limit"
  shows "round_double M = Num (Double (round53 M))"
proof -
  from assms have "\<not> limit \<le> round53 M" and "\<not> round53 M \<le> - limit" by linarith+
  then show ?thesis by (simp only: round_double_def Let_def if_False)
qed

lemma round_double_exact:
  assumes "is_double M"
  shows "round_double M = Num (Double M)"
proof -
  from assms have r: "round53 M = M" and "\<bar>M\<bar> < limit"
    by (simp_all only: is_double_def)
  then have "\<bar>round53 M\<bar> < limit" by (simp only: r)
  then show ?thesis using r by (simp only: round_double_Num)
qed

lemma round_double_int:
  assumes "\<bar>round53 n\<bar> < 2 ^ 1024"
  shows "round_double (n * scale) = Num (dbl (round53 n))"
proof -
  have r: "round53 (n * scale) = round53 n * scale"
    by (simp only: scale_def round53_scale)
  have "is_double (round53 n * scale)"
    using round53_idem assms by (rule is_double_int)
  then have "\<bar>round53 (n * scale)\<bar> < limit" by (simp only: is_double_def r)
  then show ?thesis by (simp only: round_double_Num r dbl_def)
qed

lemma js_add_zero: "js_add (Num (dbl 0)) (Num a) = Num a"
  by (simp add: units_dbl_0 round_double_exact is_double_units Double_units)

lemma js_add_ints:
  assumes "\<bar>m\<bar> \<le> 2 ^ 53" and "\<bar>n\<bar> \<le> 2 ^ 53" and "\<bar>round53 (m + n)\<bar> < 2 ^ 1024"
  shows "js_add (Num (dbl m)) (Num (dbl n)) = Num (dbl (round53 (m + n)))"
  using round_double_int [OF assms(3)]
  by (simp only: js_add.simps units_dbl_small assms(1,2) distrib_right)

lemma js_sub_ints:
  assumes "\<bar>m\<bar> \<le> 2 ^ 53" and "\<bar>n\<bar> \<le> 2 ^ 53" and "\<bar>round53 (m - n)\<bar> < 2 ^ 1024"
  shows "js_sub (Num (dbl m)) (Num (dbl n)) = Num (dbl (round53 (m - n)))"
  using round_double_int [OF assms(3)]
  by (simp only: js_sub.simps units_dbl_small assms(1,2) left_diff_distrib)

lemma js_add_whole:
  assumes "\<bar>m\<bar> \<le> 2 ^ 53" and "whole a" and "\<bar>m + int_of a\<bar> \<le> 2 ^ 53"
  shows "js_add (Num (dbl m)) (Num a) = Num (dbl (m + int_of a))"
proof -
  have "units (dbl m) + units a = (m + int_of a) * scale"
    by (simp only: units_dbl_small [OF assms(1)] whole_units [OF assms(2)] distrib_right)
  moreover have "round_double ((m + int_of a) * scale) = Num (dbl (m + int_of a))"
    using round_double_int [of "m + int_of a"] small_round53 [OF assms(3)] by simp
  ultimately show ?thesis by (simp only: js_add.simps)
qed

lemma js_sub_whole:
  assumes "\<bar>m\<bar> \<le> 2 ^ 53" and "whole a" and "\<bar>m - int_of a\<bar> \<le> 2 ^ 53"
  shows "js_sub (Num (dbl m)) (Num a) = Num (dbl (m - int_of a))"
proof -
  have "units (dbl m) - units a = (m - int_of a) * scale"
    by (simp only: units_dbl_small [OF assms(1)] whole_units [OF assms(2)] left_diff_distrib)
  moreover have "round_double ((m - int_of a) * scale) = Num (dbl (m - int_of a))"
    using round_double_int [of "m - int_of a"] small_round53 [OF assms(3)] by simp
  ultimately show ?thesis by (simp only: js_sub.simps)
qed

declare js_add.simps(1) [simp del] js_sub.simps(1) [simp del]

lemma int_of_dbl:
  assumes "round53 n = n" and "\<bar>n\<bar> < 2 ^ 1024"
  shows "int_of (dbl n) = n"
  using scale_pos by (simp only: int_of_def units_dbl [OF assms]) simp

lemma or_zero_Missing: "or_zero Missing = dbl 0"
  by (simp add: or_zero_def)

lemma or_zero_NotANumber: "or_zero NotANumber = dbl 0"
  by (simp add: or_zero_def)

lemma or_zero_Number: "or_zero (Number a) = a"
proof (cases "units a = 0")
  case True
  then have "Double (units a) = dbl 0" by (simp add: dbl_def)
  then have "a = dbl 0" by (simp only: Double_units)
  with True show ?thesis by (simp add: or_zero_def)
next
  case False
  then show ?thesis by (simp add: or_zero_def)
qed

lemmas or_zero_simps = or_zero_Missing or_zero_NotANumber or_zero_Number

text \<open>A sum or difference of two numbers is a number or an infinity.\<close>

lemma round_double_numeric: "round_double M \<noteq> NaN \<and> round_double M \<noteq> Undefined"
  by (simp add: round_double_def Let_def)

lemma js_add_numeric:
  assumes "a \<noteq> NaN" and "a \<noteq> Undefined"
  shows "js_add a (Num b) \<noteq> NaN \<and> js_add a (Num b) \<noteq> Undefined"
  using assms by (cases a) (simp_all add: js_add.simps round_double_numeric)

lemma js_sub_numeric:
  assumes "a \<noteq> NaN" and "a \<noteq> Undefined"
  shows "js_sub a (Num b) \<noteq> NaN \<and> js_sub a (Num b) \<noteq> Undefined"
  using assms by (cases a) (simp_all add: js_sub.simps round_double_numeric)

lemma add_all_numeric:
  "a \<noteq> NaN \<Longrightarrow> a \<noteq> Undefined \<Longrightarrow> add_all vs a \<noteq> NaN \<and> add_all vs a \<noteq> Undefined"
  unfolding add_all_def
  by (induction vs arbitrary: a) (simp_all add: js_add_numeric)

lemma sub_all_numeric:
  "a \<noteq> NaN \<Longrightarrow> a \<noteq> Undefined \<Longrightarrow> sub_all vs a \<noteq> NaN \<and> sub_all vs a \<noteq> Undefined"
  unfolding sub_all_def
  by (induction vs arbitrary: a) (simp_all add: js_sub_numeric)

lemma js_eq_refl: "v \<noteq> NaN \<Longrightarrow> js_eq v v"
  by (cases v) simp_all

text \<open>Integers whose absolute values add up to at most \<open>2\<^sup>5\<^sup>3\<close> are added exactly.\<close>

lemma add_all_exact:
  assumes "list_all whole vs" and "\<bar>m\<bar> + (\<Sum>v\<leftarrow>vs. \<bar>int_of v\<bar>) \<le> 2 ^ 53"
  shows "add_all vs (Num (dbl m)) = Num (dbl (m + (\<Sum>v\<leftarrow>vs. int_of v)))"
  using assms
proof (induction vs arbitrary: m)
  case Nil
  then show ?case by (simp add: add_all_def)
next
  case (Cons v vs)
  from Cons.prems have w: "whole v" and ws: "list_all whole vs" by simp_all
  have nn: "0 \<le> (\<Sum>v\<leftarrow>vs. \<bar>int_of v\<bar>)" by (rule sum_list_nonneg) auto
  from Cons.prems(2) nn have m: "\<bar>m\<bar> \<le> 2 ^ 53" and mv: "\<bar>m + int_of v\<bar> \<le> 2 ^ 53"
    and rest: "\<bar>m + int_of v\<bar> + (\<Sum>v\<leftarrow>vs. \<bar>int_of v\<bar>) \<le> 2 ^ 53"
    by simp_all
  have "add_all (v # vs) (Num (dbl m)) = add_all vs (js_add (Num (dbl m)) (Num v))"
    by (simp add: add_all_def)
  also have "\<dots> = add_all vs (Num (dbl (m + int_of v)))"
    by (simp only: js_add_whole [OF m w mv])
  also have "\<dots> = Num (dbl (m + int_of v + (\<Sum>v\<leftarrow>vs. int_of v)))"
    using ws rest by (rule Cons.IH)
  finally show ?case by (simp add: add.assoc)
qed

lemma sub_all_exact:
  assumes "list_all whole vs" and "\<bar>m\<bar> + (\<Sum>v\<leftarrow>vs. \<bar>int_of v\<bar>) \<le> 2 ^ 53"
  shows "sub_all vs (Num (dbl m)) = Num (dbl (m - (\<Sum>v\<leftarrow>vs. int_of v)))"
  using assms
proof (induction vs arbitrary: m)
  case Nil
  then show ?case by (simp add: sub_all_def)
next
  case (Cons v vs)
  from Cons.prems have w: "whole v" and ws: "list_all whole vs" by simp_all
  have nn: "0 \<le> (\<Sum>v\<leftarrow>vs. \<bar>int_of v\<bar>)" by (rule sum_list_nonneg) auto
  from Cons.prems(2) nn have m: "\<bar>m\<bar> \<le> 2 ^ 53" and mv: "\<bar>m - int_of v\<bar> \<le> 2 ^ 53"
    and rest: "\<bar>m - int_of v\<bar> + (\<Sum>v\<leftarrow>vs. \<bar>int_of v\<bar>) \<le> 2 ^ 53"
    by simp_all
  have "sub_all (v # vs) (Num (dbl m)) = sub_all vs (js_sub (Num (dbl m)) (Num v))"
    by (simp add: sub_all_def)
  also have "\<dots> = sub_all vs (Num (dbl (m - int_of v)))"
    by (simp only: js_sub_whole [OF m w mv])
  also have "\<dots> = Num (dbl (m - int_of v - (\<Sum>v\<leftarrow>vs. int_of v)))"
    using ws rest by (rule Cons.IH)
  finally show ?case by (simp add: algebra_simps)
qed

lemma abs_sum_list_le: "\<bar>\<Sum>v\<leftarrow>vs. int_of v\<bar> \<le> (\<Sum>v\<leftarrow>vs. \<bar>int_of v\<bar>)"
  by (induction vs) auto

lemma add_sub_exact:
  assumes "small_ints (ls @ ss)"
  shows "sub_all ss (add_all ls (Num (dbl 0))) =
     Num (dbl ((\<Sum>v\<leftarrow>ls. int_of v) - (\<Sum>v\<leftarrow>ss. int_of v)))"
proof -
  from assms have wl: "list_all whole ls" and ws: "list_all whole ss"
    and b: "(\<Sum>v\<leftarrow>ls. \<bar>int_of v\<bar>) + (\<Sum>v\<leftarrow>ss. \<bar>int_of v\<bar>) \<le> 2 ^ 53"
    by (simp_all add: small_ints_def)
  have nn: "0 \<le> (\<Sum>v\<leftarrow>ss. \<bar>int_of v\<bar>)" by (rule sum_list_nonneg) auto
  from b nn have "\<bar>0::int\<bar> + (\<Sum>v\<leftarrow>ls. \<bar>int_of v\<bar>) \<le> 2 ^ 53" by simp
  with wl have "add_all ls (Num (dbl 0)) = Num (dbl (0 + (\<Sum>v\<leftarrow>ls. int_of v)))"
    by (rule add_all_exact)
  moreover have "\<bar>\<Sum>v\<leftarrow>ls. int_of v\<bar> + (\<Sum>v\<leftarrow>ss. \<bar>int_of v\<bar>) \<le> 2 ^ 53"
    using b abs_sum_list_le [of ls] by simp
  ultimately show ?thesis using sub_all_exact [OF ws] by simp
qed

subsection \<open>The two loops\<close>

text \<open>
  On a finite chain the ancestor loop adds the offsets of the chain, one after the other,
  each sum rounded as \<^verbatim>\<open>+\<close> rounds.
\<close>

lemma walk_chain:
  "is_chain d el ps \<Longrightarrow>
     walk d el l t = Some (add_all (offsetLefts d ps) l, add_all (offsetTops d ps) t)"
proof (induction d el ps arbitrary: l t rule: is_chain.induct)
  case (1 d el)
  then show ?case by simp
next
  case (2 d el p)
  then have "p = el" and "offsetParent (d el) = None" by auto
  then show ?case
    by (subst walk.simps) (simp add: Let_def add_all_def offsetLefts_def offsetTops_def)
next
  case (3 d el p q ps)
  from "3.prems" have pe: "p = el" and par: "offsetParent (d el) = Some q"
    and rest: "is_chain d q (q # ps)"
    by auto
  show ?case
    by (subst walk.simps)
      (simp add: pe par "3.IH" [OF rest] Let_def add_all_def offsetLefts_def offsetTops_def)
qed

lemma is_chain_head: "is_chain d el ps \<Longrightarrow> \<exists>qs. ps = el # qs"
  by (induction d el ps rule: is_chain.induct) auto

text \<open>Conversely, the loop ends only on a finite chain.\<close>

lemma walk_returns_chain:
  assumes "walk d el l t = Some r"
  shows "\<exists>ps. is_chain d el ps"
proof (rule walk.raw_induct [where P = "\<lambda>d el l t r. \<exists>ps. is_chain d el ps", OF _ assms])
  fix walk' :: "heap \<Rightarrow> ref \<Rightarrow> jsval \<Rightarrow> jsval \<Rightarrow> (jsval \<times> jsval) option"
  fix d el l t r
  assume IH: "\<And>d el l t r. walk' d el l t = Some r \<Longrightarrow> \<exists>ps. is_chain d el ps"
  assume body:
    "(let left' = js_add l (Num (or_zero (offsetLeft (d el))));
          top' = js_add t (Num (or_zero (offsetTop (d el))))
      in case offsetParent (d el) of
           None \<Rightarrow> Some (left', top')
         | Some el' \<Rightarrow> walk' d el' left' top') = Some r"
  show "\<exists>ps. is_chain d el ps"
  proof (cases "offsetParent (d el)")
    case None
    then have "is_chain d el [el]" by simp
    then show ?thesis by blast
  next
    case (Some q)
    with body have "walk' d q (js_add l (Num (or_zero (offsetLeft (d el)))))
        (js_add t (Num (or_zero (offsetTop (d el))))) = Some r"
      by (simp add: Let_def)
    then obtain ps where ps: "is_chain d q ps" using IH by blast
    then obtain qs where "ps = q # qs" using is_chain_head by blast
    with ps Some have "is_chain d el (el # ps)" by simp
    then show ?thesis by blast
  qed
qed

lemma looped_no_chain: "\<not> is_chain looped el ps"
proof (induction ps arbitrary: el)
  case Nil
  show ?case by simp
next
  case (Cons p ps)
  show ?case
  proof (cases ps)
    case Nil
    then show ?thesis by (simp add: looped_def)
  next
    case (Cons q qs)
    with Cons.IH [of q] show ?thesis by simp
  qed
qed

text \<open>On a cycle the loop does not end: the call has no outcome.\<close>

lemma getPosition_looped: "getPosition looped this overflown' = None"
proof (cases "walk looped this (Num (dbl 0)) (Num (dbl 0))")
  case None
  then show ?thesis by (simp add: getPosition_def)
next
  case (Some r)
  then have "\<exists>ps. is_chain looped this ps" by (rule walk_returns_chain)
  with looped_no_chain show ?thesis by blast
qed

lemma getPosition_returns_iff:
  "(\<exists>r. getPosition d this overflown' = Some r) \<longleftrightarrow> (\<exists>ps. is_chain d this ps)"
proof
  assume "\<exists>r. getPosition d this overflown' = Some r"
  then obtain lt where "walk d this (Num (dbl 0)) (Num (dbl 0)) = Some lt"
    by (cases "walk d this (Num (dbl 0)) (Num (dbl 0))") (auto simp: getPosition_def)
  then show "\<exists>ps. is_chain d this ps" by (rule walk_returns_chain)
next
  assume "\<exists>ps. is_chain d this ps"
  then obtain ps where "is_chain d this ps" by blast
  then have "\<exists>lt. walk d this (Num (dbl 0)) (Num (dbl 0)) = Some lt" by (simp add: walk_chain)
  then show "\<exists>r. getPosition d this overflown' = Some r"
    by (auto simp: getPosition_def Let_def split: prod.splits)
qed

text \<open>The second loop subtracts the scroll offsets of the containers, first to last.\<close>

lemma each_scroll_fold:
  "each_scroll d cs (l, t) = (sub_all (scrollLefts d cs) l, sub_all (scrollTops d cs) t)"
  unfolding each_scroll_def sub_all_def scrollLefts_def scrollTops_def
  by (induction cs arbitrary: l t) simp_all

lemma getPosition_chain:
  assumes "is_chain d this ps"
  shows "getPosition d this overflown' =
     Some (\<lparr>x = sub_all (scrollLefts d (splat overflown'))
                  (add_all (offsetLefts d ps) (Num (dbl 0))),
            y = sub_all (scrollTops d (splat overflown'))
                  (add_all (offsetTops d ps) (Num (dbl 0)))\<rparr>, d)"
  by (simp add: getPosition_def walk_chain [OF assms] each_scroll_fold Let_def)

lemma getPosition_sum:
  assumes "is_chain d this ps"
    and "small_ints (offsetLefts d ps @ scrollLefts d (splat overflown'))"
    and "small_ints (offsetTops d ps @ scrollTops d (splat overflown'))"
  shows "getPosition d this overflown' =
     Some (\<lparr>x = Num (dbl ((\<Sum>v\<leftarrow>offsetLefts d ps. int_of v)
                          - (\<Sum>v\<leftarrow>scrollLefts d (splat overflown'). int_of v))),
            y = Num (dbl ((\<Sum>v\<leftarrow>offsetTops d ps. int_of v)
                          - (\<Sum>v\<leftarrow>scrollTops d (splat overflown'). int_of v)))\<rparr>, d)"
  by (simp only: getPosition_chain [OF assms(1)] add_sub_exact [OF assms(2)]
      add_sub_exact [OF assms(3)])

lemma getPosition_None_iff:
  "getPosition d this overflown' = None \<longleftrightarrow> walk d this (Num (dbl 0)) (Num (dbl 0)) = None"
  by (simp add: getPosition_def split: option.splits prod.splits)

text \<open>
  The loops read \<^verbatim>\<open>offsetLeft\<close>, \<^verbatim>\<open>offsetTop\<close>, \<^verbatim>\<open>offsetParent\<close>, \<^verbatim>\<open>scrollLeft\<close> and
  \<^verbatim>\<open>scrollTop\<close> and nothing else: two stores that agree on these five give the same
  point, and on both or on neither the call returns.
\<close>

lemma is_chain_cong:
  assumes "\<forall>r. offsetParent (d r) = offsetParent (e r)"
  shows "is_chain d el ps = is_chain e el ps"
  using assms by (induction d el ps rule: is_chain.induct) auto

lemma getPosition_reads:
  assumes par: "\<forall>r. offsetParent (d r) = offsetParent (e r)"
    and ol: "\<forall>r. offsetLeft (d r) = offsetLeft (e r)"
    and ot: "\<forall>r. offsetTop (d r) = offsetTop (e r)"
    and sl: "\<forall>r. scrollLeft (d r) = scrollLeft (e r)"
    and st: "\<forall>r. scrollTop (d r) = scrollTop (e r)"
  shows "map_option fst (getPosition d this overflown') =
         map_option fst (getPosition e this overflown')"
proof (cases "\<exists>ps. is_chain d this ps")
  case True
  then obtain ps where cd: "is_chain d this ps" by blast
  then have ce: "is_chain e this ps" using is_chain_cong [OF par] by simp
  show ?thesis
    by (simp add: getPosition_chain [OF cd] getPosition_chain [OF ce] ol ot sl st
        offsetLefts_def offsetTops_def scrollLefts_def scrollTops_def)
next
  case False
  then have nd: "walk d this (Num (dbl 0)) (Num (dbl 0)) = None"
    using walk_returns_chain [of d this "Num (dbl 0)" "Num (dbl 0)"]
    by (cases "walk d this (Num (dbl 0)) (Num (dbl 0))") auto
  from False have "\<not> (\<exists>ps. is_chain e this ps)"
    using is_chain_cong [OF par] by simp
  then have ne: "walk e this (Num (dbl 0)) (Num (dbl 0)) = None"
    using walk_returns_chain [of e this "Num (dbl 0)" "Num (dbl 0)"]
    by (cases "walk e this (Num (dbl 0)) (Num (dbl 0))") auto
  have "getPosition d this overflown' = None" "getPosition e this overflown' = None"
    using nd ne by (simp_all add: getPosition_None_iff)
  then show ?thesis by simp
qed

text \<open>Numbers that are not integers are added and subtracted alike: \<open>1 - 0.5 = 0.5\<close>.\<close>

lemma units_half: "units half = 2 ^ 1073"
proof -
  have "round53 (1 * 2 ^ 1073) = 1 * 2 ^ 1073"
    by (rule round53_exact [OF refl]) simp
  moreover have "(2::int) ^ 1073 < 2 ^ 2098"
    by (rule power_strict_increasing) simp_all
  ultimately have "is_double (2 ^ 1073)"
    by (simp only: is_double_def limit_def) simp
  then show ?thesis unfolding half_def by (rule units_Double)
qed

lemma one_minus_half: "js_sub (Num (dbl 1)) (Num half) = Num half"
proof -
  have "(2::int) ^ Suc 1073 = 2 * 2 ^ 1073" by (rule power_Suc)
  moreover have "Suc 1073 = 1074" by simp
  ultimately have "scale - 2 ^ 1073 = (2 ^ 1073 :: int)"
    by (simp only: scale_def)
  moreover have "units (dbl 1) = scale"
    using units_dbl_small [of 1] by simp
  ultimately have "units (dbl 1) - units half = units half"
    by (simp only: units_half)
  then show ?thesis
    by (simp only: js_sub.simps round_double_exact [OF is_double_units] Double_units)
qed

text \<open>Sums over a list depend on the multiset of its entries only.\<close>

lemma sum_list_mset_cong:
  fixes f :: "'a \<Rightarrow> int"
  assumes "mset cs = mset cs'"
  shows "(\<Sum>c\<leftarrow>cs. f c) = (\<Sum>c\<leftarrow>cs'. f c)"
proof -
  have "mset (map f cs) = mset (map f cs')"
    using assms by (metis mset_map)
  then show ?thesis by (metis sum_mset_sum_list)
qed

lemma sum_list_count:
  fixes f :: "'a \<Rightarrow> int"
  shows "(\<Sum>c\<leftarrow>cs. f c) = (\<Sum>c\<in>set cs. int (count_list cs c) * f c)"
proof (induction cs)
  case Nil
  show ?case by simp
next
  case (Cons a cs)
  have fin: "finite (insert a (set cs))" by simp
  have "(\<Sum>c\<in>insert a (set cs). int (count_list (a # cs) c) * f c) =
        (\<Sum>c\<in>insert a (set cs). int (count_list cs c) * f c + (if c = a then f c else 0))"
    by (rule sum.cong) (simp_all add: algebra_simps)
  also have "\<dots> = (\<Sum>c\<in>insert a (set cs). int (count_list cs c) * f c) + f a"
    using fin by (simp add: sum.distrib del: sum.insert)
  also have "(\<Sum>c\<in>insert a (set cs). int (count_list cs c) * f c) =
        (\<Sum>c\<in>set cs. int (count_list cs c) * f c)"
    by (cases "a \<in> set cs") (simp_all add: insert_absorb)
  finally show ?case using Cons.IH by simp
qed

lemma small_ints_mset:
  assumes "mset vs = mset ws"
  shows "small_ints vs = small_ints ws"
proof -
  from assms have "set vs = set ws" by (rule mset_eq_setD)
  then have "list_all whole vs = list_all whole ws" by (simp add: list_all_iff)
  moreover have "(\<Sum>v\<leftarrow>vs. \<bar>int_of v\<bar>) = (\<Sum>v\<leftarrow>ws. \<bar>int_of v\<bar>)"
    using assms by (rule sum_list_mset_cong)
  ultimately show ?thesis by (simp add: small_ints_def)
qed

lemma small_ints_butlast: "small_ints (vs @ [v]) \<Longrightarrow> small_ints vs"
proof -
  assume a: "small_ints (vs @ [v])"
  have "0 \<le> \<bar>int_of v\<bar>" by simp
  with a show "small_ints vs" by (auto simp: small_ints_def)
qed

lemma small_ints_bound:
  assumes "small_ints (ls @ ss)"
  shows "\<bar>(\<Sum>v\<leftarrow>ls. int_of v) - (\<Sum>v\<leftarrow>ss. int_of v)\<bar> \<le> 2 ^ 53"
proof -
  from assms have "(\<Sum>v\<leftarrow>ls. \<bar>int_of v\<bar>) + (\<Sum>v\<leftarrow>ss. \<bar>int_of v\<bar>) \<le> 2 ^ 53"
    by (simp add: small_ints_def)
  with abs_sum_list_le [of ls] abs_sum_list_le [of ss] show ?thesis by linarith
qed

subsection \<open>The example stores\<close>

lemma is_chain_nested3: "is_chain nested3 0 [0, 1, 2]"
  by (simp add: nested3_def empty_page_def blank_def)

lemma nested3_attrs:
  "offsetLeft (nested3 0) = Number (dbl 10)" "offsetTop (nested3 0) = Number (dbl 5)"
  "offsetLeft (nested3 1) = Number (dbl 20)" "offsetTop (nested3 1) = Number (dbl 0)"
  "offsetLeft (nested3 2) = Number (dbl 0)" "offsetTop (nested3 2) = Number (dbl 15)"
  "offsetWidth (nested3 0) = Number (dbl 200)" "offsetHeight (nested3 0) = Number (dbl 300)"
  "scrollLeft (nested3 3) = Number (dbl 5)" "scrollTop (nested3 3) = Number (dbl 5)"
  "scrollLeft (nested3 4) = Number (dbl 7)" "scrollTop (nested3 4) = Number (dbl 40)"
  "offsetLeft (nested3 (Suc 0)) = Number (dbl 20)"
  "offsetTop (nested3 (Suc 0)) = Number (dbl 0)"
  by (simp_all add: nested3_def blank_def)

lemma is_chain_far: "is_chain far 0 [0, 1]" "is_chain far 5 [5]"
  by (simp_all add: far_def empty_page_def blank_def)

lemma far_attrs:
  "offsetLeft (far 0) = Number (dbl 9007199254740992)" "offsetTop (far 0) = Missing"
  "offsetLeft (far 1) = Number (dbl 1)" "offsetTop (far 1) = Missing"
  "offsetLeft (far 5) = Missing" "offsetTop (far 5) = Missing"
  "scrollLeft (far 2) = Number (dbl 9007199254740992)" "scrollTop (far 2) = Missing"
  "scrollLeft (far 3) = Number (dbl 1)" "scrollTop (far 3) = Missing"
  "scrollLeft (far 4) = Number (dbl 5)" "scrollTop (far 4) = Number (dbl 5)"
  "offsetLeft (far (Suc 0)) = Number (dbl 1)" "offsetTop (far (Suc 0)) = Missing"
  by (simp_all add: far_def empty_page_def blank_def)

text \<open>Above \<open>2\<^sup>5\<^sup>3\<close> only every second integer is a double.\<close>

lemma bitlen_54: "2 ^ 53 \<le> n \<Longrightarrow> n < 2 ^ 54 \<Longrightarrow> bitlen n = 54"
  by (rule antisym) (simp_all add: bitlen_le_iff_power bitlen_ge_iff_power)

lemma round53_examples:
  "round53 9007199254740993 = 9007199254740992"
  "round53 (- 9007199254740993) = - 9007199254740992"
  "round53 (- 9007199254740994) = - 9007199254740994"
  "round53 (- 9007199254740996) = - 9007199254740996"
  "round53 (- 9007199254740997) = - 9007199254740996"
  by (simp_all add: round53_def Let_def bitlen_54)

lemmas eval_simps =
  or_zero_simps add_all_def sub_all_def offsetLefts_def offsetTops_def
  scrollLefts_def scrollTops_def splat_def
  js_add_ints js_sub_ints small_round53(1) round53_examples

lemmas small_simps =
  or_zero_simps offsetLefts_def offsetTops_def scrollLefts_def scrollTops_def splat_def
  small_ints_def whole_dbl_small int_of_dbl_small

subsection \<open>An object that is not an element\<close>

text \<open>
  On an object without \<^verbatim>\<open>offsetWidth\<close> and \<^verbatim>\<open>offsetHeight\<close> the sums of
  \<^verbatim>\<open>getCoordinates\<close> are \<^verbatim>\<open>NaN\<close>, which \<^verbatim>\<open>==\<close> does not relate to itself.
\<close>

lemma getCoordinates_empty_page:
  "getCoordinates empty_page 0 Absent =
     Some (\<lparr>top = Num (dbl 0), left = Num (dbl 0), width = Undefined, height = Undefined,
            right = NaN, bottom = NaN\<rparr>, empty_page)"
proof -
  have c: "is_chain empty_page 0 [0]"
    by (simp add: empty_page_def blank_def)
  have "offsetLeft (empty_page 0) = Missing" "offsetTop (empty_page 0) = Missing"
    "offsetWidth (empty_page 0) = Missing" "offsetHeight (empty_page 0) = Missing"
    by (simp_all add: empty_page_def blank_def)
  then show ?thesis
    by (simp add: getCoordinates_def getPosition_chain [OF c] eval_simps js_add_zero
        val_def Let_def)
qed

lemma js_eq_NaN: "\<not> js_eq NaN v"
  by simp

subsection \<open>Position, bounding box and scroll offset\<close>

text \<open>
  C1 (as stated). For every node with a finite chain of \<^verbatim>\<open>offsetParent\<close> ancestors,
  \<^verbatim>\<open>getPosition\<close> returns the sum of the offsets minus the sum of the scroll offsets.
  The script adds with \<^verbatim>\<open>+=\<close>, which rounds every partial sum to a double: for element
  \<open>0\<close> of the store \<open>far\<close>, which lies \<open>9007199254740992\<close> to the right in an element
  that lies \<open>1\<close> to the right, the sum is \<open>9007199254740993\<close> and the call returns
  \<open>x = 9007199254740992\<close>.
\<close>

theorem getPosition_sum_rounds:
  "is_chain far 0 [0, 1] \<and>
   int_of (or_zero (offsetLeft (far 0))) + int_of (or_zero (offsetLeft (far 1)))
     = 9007199254740993 \<and>
   getPosition far 0 (Array []) =
     Some (\<lparr>x = Num (dbl 9007199254740992), y = Num (dbl 0)\<rparr>, far) \<and>
   int_of (dbl 9007199254740992) = 9007199254740992"
proof -
  have "int_of (or_zero (offsetLeft (far 0))) + int_of (or_zero (offsetLeft (far 1)))
      = 9007199254740993"
    by (simp add: far_attrs or_zero_simps int_of_dbl_small)
  moreover have "getPosition far 0 (Array []) =
      Some (\<lparr>x = Num (dbl 9007199254740992), y = Num (dbl 0)\<rparr>, far)"
    by (simp add: getPosition_chain [OF is_chain_far(1)] far_attrs eval_simps)
  moreover have "int_of (dbl 9007199254740992) = 9007199254740992"
    by (simp add: int_of_dbl_small)
  ultimately show ?thesis using is_chain_far(1) by blast
qed

text \<open>
  C1 (amended). For every node whose chain of \<^verbatim>\<open>offsetParent\<close> ancestors is \<open>ps\<close> (the
  node first) and for every container argument, when the offsets of the chain and the
  scroll offsets of the containers (absent ones counting as \<open>0\<close>) are integers whose
  absolute values add up to at most \<open>2\<^sup>5\<^sup>3\<close>, in \<open>x\<close> and in \<open>y\<close>, \<^verbatim>\<open>getPosition\<close>
  returns the point whose \<open>x\<close> is the sum of \<^verbatim>\<open>offsetLeft || 0\<close> over \<open>ps\<close> minus the sum
  of \<^verbatim>\<open>scrollLeft || 0\<close> over the containers, and whose \<open>y\<close> is the same with
  \<^verbatim>\<open>offsetTop\<close> and \<^verbatim>\<open>scrollTop\<close>; the store is left as it was. At the three nested
  elements with offsets \<open>(10, 5)\<close>, \<open>(20, 0)\<close>, \<open>(0, 15)\<close> and an empty container list
  the point is \<open>{x: 30, y: 20}\<close>.
\<close>

theorem getPosition_offsets_minus_scrolls:
  assumes "is_chain d this ps"
    and "small_ints (offsetLefts d ps @ scrollLefts d (splat overflown'))"
    and "small_ints (offsetTops d ps @ scrollTops d (splat overflown'))"
  shows "getPosition d this overflown' =
     Some (\<lparr>x = Num (dbl ((\<Sum>p\<leftarrow>ps. int_of (or_zero (offsetLeft (d p))))
                - (\<Sum>c\<leftarrow>splat overflown'. int_of (or_zero (scrollLeft (d c)))))),
            y = Num (dbl ((\<Sum>p\<leftarrow>ps. int_of (or_zero (offsetTop (d p))))
                - (\<Sum>c\<leftarrow>splat overflown'. int_of (or_zero (scrollTop (d c))))))\<rparr>, d)"
  using getPosition_sum [OF assms]
  by (simp add: offsetLefts_def offsetTops_def scrollLefts_def scrollTops_def comp_def)

theorem getPosition_offsets_minus_scrolls_witness:
  "is_chain nested3 0 [0, 1, 2] \<and>
   small_ints (offsetLefts nested3 [0, 1, 2] @ scrollLefts nested3 (splat (Array []))) \<and>
   small_ints (offsetTops nested3 [0, 1, 2] @ scrollTops nested3 (splat (Array []))) \<and>
   getPosition nested3 0 (Array []) = Some (\<lparr>x = Num (dbl 30), y = Num (dbl 20)\<rparr>, nested3)"
proof -
  have l: "small_ints (offsetLefts nested3 [0, 1, 2] @ scrollLefts nested3 (splat (Array [])))"
    by (simp add: nested3_attrs small_simps)
  have t: "small_ints (offsetTops nested3 [0, 1, 2] @ scrollTops nested3 (splat (Array [])))"
    by (simp add: nested3_attrs small_simps)
  have "getPosition nested3 0 (Array []) =
      Some (\<lparr>x = Num (dbl 30), y = Num (dbl 20)\<rparr>, nested3)"
    using getPosition_offsets_minus_scrolls [OF is_chain_nested3 l t]
    by (simp add: nested3_attrs or_zero_simps int_of_dbl_small splat_def)
  with is_chain_nested3 l t show ?thesis by blast
qed

text \<open>
  C2 (as stated). A call of \<^verbatim>\<open>getPosition\<close> whose receiver is absent or invalid raises
  \<open>InvalidArgument\<close> rather than returning \<open>{x: 0, y: 0}\<close>. The script has no
  \<^verbatim>\<open>throw\<close>: on the object that stands for an absent receiver the loop body runs
  once, adds \<^verbatim>\<open>undefined || 0\<close> twice, finds no \<^verbatim>\<open>offsetParent\<close>, and the call returns
  the point \<open>{x: 0, y: 0}\<close>.
\<close>

theorem getPosition_absent_receiver_returns_origin:
  "getPosition empty_page 0 Absent = Some (\<lparr>x = Num (dbl 0), y = Num (dbl 0)\<rparr>, empty_page)"
proof -
  have c: "is_chain empty_page 0 [0]"
    by (simp add: empty_page_def blank_def)
  have "offsetLeft (empty_page 0) = Missing" "offsetTop (empty_page 0) = Missing"
    by (simp_all add: empty_page_def blank_def)
  then show ?thesis
    by (simp add: getPosition_chain [OF c] eval_simps js_add_zero)
qed

text \<open>
  C2 (amended). For every call of \<^verbatim>\<open>getPosition\<close> whose receiver is no node of a layout
  (it has no \<^verbatim>\<open>offsetParent\<close>, and its \<^verbatim>\<open>offsetLeft\<close> and \<^verbatim>\<open>offsetTop\<close> are absent or
  \<open>0\<close>) and with no containers, the call returns the point \<open>{x: 0, y: 0}\<close> and leaves
  the store as it was; no error is raised.
\<close>

theorem getPosition_no_layout_origin:
  assumes "offsetParent (d this) = None"
    and "or_zero (offsetLeft (d this)) = dbl 0"
    and "or_zero (offsetTop (d this)) = dbl 0"
  shows "getPosition d this Absent = Some (\<lparr>x = Num (dbl 0), y = Num (dbl 0)\<rparr>, d)"
proof -
  from assms(1) have c: "is_chain d this [this]" by simp
  show ?thesis
    using assms(2,3)
    by (simp add: getPosition_chain [OF c] splat_def add_all_def sub_all_def
        offsetLefts_def offsetTops_def scrollLefts_def scrollTops_def js_add_zero)
qed

theorem getPosition_no_layout_origin_witness:
  "offsetParent (empty_page 7) = None \<and>
   or_zero (offsetLeft (empty_page 7)) = dbl 0 \<and>
   or_zero (offsetTop (empty_page 7)) = dbl 0 \<and>
   getPosition empty_page 7 Absent = Some (\<lparr>x = Num (dbl 0), y = Num (dbl 0)\<rparr>, empty_page)"
proof -
  have h: "offsetParent (empty_page 7) = None"
    "or_zero (offsetLeft (empty_page 7)) = dbl 0"
    "or_zero (offsetTop (empty_page 7)) = dbl 0"
    by (simp_all add: empty_page_def blank_def or_zero_simps)
  from h getPosition_no_layout_origin [of empty_page 7, OF h] show ?thesis by simp
qed

text \<open>
  C3. For every valid node (its chain of ancestors is finite, and its \<^verbatim>\<open>offsetWidth\<close> and
  \<^verbatim>\<open>offsetHeight\<close> are numbers) and every container argument, \<^verbatim>\<open>getCoordinates\<close>
  returns an object with \<^verbatim>\<open>right == left + width\<close> and \<^verbatim>\<open>bottom == top + height\<close>.
\<close>

theorem getCoordinates_right_bottom:
  assumes "is_chain d this ps"
    and "is_number (offsetWidth (d this))"
    and "is_number (offsetHeight (d this))"
  shows "\<exists>b. getCoordinates d this overflown' = Some (b, d) \<and>
             js_eq (right b) (js_add (left b) (width b)) \<and>
             js_eq (bottom b) (js_add (top b) (height b))"
proof -
  from assms(2) obtain w where w: "offsetWidth (d this) = Number w"
    by (cases "offsetWidth (d this)") (simp_all add: is_number_def)
  from assms(3) obtain h where h: "offsetHeight (d this) = Number h"
    by (cases "offsetHeight (d this)") (simp_all add: is_number_def)
  define l where "l = sub_all (scrollLefts d (splat overflown'))
    (add_all (offsetLefts d ps) (Num (dbl 0)))"
  define t where "t = sub_all (scrollTops d (splat overflown'))
    (add_all (offsetTops d ps) (Num (dbl 0)))"
  have "l \<noteq> NaN \<and> l \<noteq> Undefined" unfolding l_def
    by (intro sub_all_numeric conjunct1 [OF add_all_numeric] conjunct2 [OF add_all_numeric])
      simp_all
  then have r: "js_eq (js_add l (Num w)) (js_add l (Num w))"
    by (intro js_eq_refl conjunct1 [OF js_add_numeric]) simp_all
  have "t \<noteq> NaN \<and> t \<noteq> Undefined" unfolding t_def
    by (intro sub_all_numeric conjunct1 [OF add_all_numeric] conjunct2 [OF add_all_numeric])
      simp_all
  then have b: "js_eq (js_add t (Num h)) (js_add t (Num h))"
    by (intro js_eq_refl conjunct1 [OF js_add_numeric]) simp_all
  show ?thesis
    using r b
    by (simp add: getCoordinates_def getPosition_chain [OF assms(1)] w h Let_def val_def
        l_def [symmetric] t_def [symmetric])
qed

theorem getCoordinates_right_bottom_witness:
  "is_chain nested3 0 [0, 1, 2] \<and>
   is_number (offsetWidth (nested3 0)) \<and>
   is_number (offsetHeight (nested3 0)) \<and>
   (\<exists>b. getCoordinates nested3 0 (Single 3) = Some (b, nested3) \<and>
        js_eq (right b) (js_add (left b) (width b)) \<and>
        js_eq (bottom b) (js_add (top b) (height b)))"
proof -
  have h: "is_number (offsetWidth (nested3 0))" "is_number (offsetHeight (nested3 0))"
    by (simp_all add: nested3_attrs is_number_def)
  from is_chain_nested3 h getCoordinates_right_bottom [OF is_chain_nested3 h, of "Single 3"]
  show ?thesis by blast
qed

text \<open>
  \<^verbatim>\<open>getScroll\<close> after \<^verbatim>\<open>scrollTo\<close> returns what the receiver made of the two values
  written, and \<^verbatim>\<open>scrollTo\<close> touches no other object.
\<close>

lemma scrollTo_getScroll_host:
  "fst (getScroll (scrollTo h d this xv yv) this) =
     \<lparr>x = val (put_scrollLeft h (d this) xv),
      y = val (put_scrollTop h ((d this)\<lparr>scrollLeft := put_scrollLeft h (d this) xv\<rparr>) yv)\<rparr>"
  by (simp add: scrollTo_def getScroll_def Let_def)

lemma scrollTo_other: "r \<noteq> this \<Longrightarrow> scrollTo h d this xv yv r = d r"
  by (simp add: scrollTo_def Let_def)

text \<open>
  C4 (as stated). For every node, \<^verbatim>\<open>scrollTo(10, 20)\<close> followed by \<^verbatim>\<open>getScroll()\<close>
  returns \<open>{x: 10, y: 20}\<close>. What the two assignments of \<^verbatim>\<open>scrollTo\<close> leave in the
  properties is up to the receiver: element \<open>0\<close> of the store \<open>narrow\<close>, an element in
  a browser whose content exceeds its box by \<open>(1, 2)\<close>, is scrolled as far as it goes,
  and \<^verbatim>\<open>getScroll\<close> returns \<open>{x: 1, y: 2}\<close>.
\<close>

theorem scrollTo_clamped_getScroll:
  "fst (getScroll (scrollTo scrolling_box narrow 0 (Number (dbl 10)) (Number (dbl 20))) 0)
     = \<lparr>x = Num (dbl 1), y = Num (dbl 2)\<rparr> \<and>
   int_of (dbl 1) = 1 \<and> int_of (dbl 2) = 2 \<and> int_of (dbl 10) = 10 \<and> int_of (dbl 20) = 20"
proof -
  have u: "units (dbl 1) < units (dbl 10)" "units (dbl 2) < units (dbl 20)"
    "\<not> units (dbl 10) \<le> 0" "\<not> units (dbl 20) \<le> 0"
    "\<not> units (dbl 1) \<le> 0" "\<not> units (dbl 2) \<le> 0"
    using scale_pos by (simp_all add: units_dbl_small)
  have "fst (getScroll (scrollTo scrolling_box narrow 0 (Number (dbl 10)) (Number (dbl 20))) 0)
      = \<lparr>x = Num (dbl 1), y = Num (dbl 2)\<rparr>"
    by (simp add: getScroll_def scrollTo_def scrolling_box_def clamp_scroll_def narrow_def
        blank_def val_def Let_def js_sub_ints small_round53(1) u)
  then show ?thesis by (simp add: int_of_dbl_small)
qed

text \<open>
  C4 (amended). For every node on which the receiver keeps the two values written (it
  stores \<open>10\<close> in \<^verbatim>\<open>scrollLeft\<close> and then \<open>20\<close> in \<^verbatim>\<open>scrollTop\<close> unchanged, as an
  ordinary object does, and an element that can be scrolled that far),
  \<^verbatim>\<open>scrollTo(10, 20)\<close> followed by \<^verbatim>\<open>getScroll()\<close> on the same node returns
  \<open>{x: 10, y: 20}\<close>, and \<^verbatim>\<open>getScroll\<close> leaves the store as \<^verbatim>\<open>scrollTo\<close> left it.
\<close>

theorem scrollTo_then_getScroll:
  assumes "put_scrollLeft h (d this) (Number (dbl 10)) = Number (dbl 10)"
    and "put_scrollTop h ((d this)\<lparr>scrollLeft := Number (dbl 10)\<rparr>) (Number (dbl 20))
           = Number (dbl 20)"
  shows "getScroll (scrollTo h d this (Number (dbl 10)) (Number (dbl 20))) this =
     (\<lparr>x = Num (dbl 10), y = Num (dbl 20)\<rparr>,
      scrollTo h d this (Number (dbl 10)) (Number (dbl 20)))"
  using assms by (simp add: scrollTo_def getScroll_def Let_def val_def)

theorem scrollTo_then_getScroll_witness:
  "put_scrollLeft plain_object (nested3 0) (Number (dbl 10)) = Number (dbl 10) \<and>
   put_scrollTop plain_object ((nested3 0)\<lparr>scrollLeft := Number (dbl 10)\<rparr>) (Number (dbl 20))
     = Number (dbl 20) \<and>
   getScroll (scrollTo plain_object nested3 0 (Number (dbl 10)) (Number (dbl 20))) 0 =
     (\<lparr>x = Num (dbl 10), y = Num (dbl 20)\<rparr>,
      scrollTo plain_object nested3 0 (Number (dbl 10)) (Number (dbl 20)))"
proof -
  have h: "put_scrollLeft plain_object (nested3 0) (Number (dbl 10)) = Number (dbl 10)"
    "put_scrollTop plain_object ((nested3 0)\<lparr>scrollLeft := Number (dbl 10)\<rparr>) (Number (dbl 20))
      = Number (dbl 20)"
    by (simp_all add: plain_object_def)
  from h scrollTo_then_getScroll [of plain_object nested3 0, OF h] show ?thesis by blast
qed

text \<open>
  C5. For every node with no \<^verbatim>\<open>offsetParent\<close>, \<^verbatim>\<open>getPosition([])\<close> is the point of the
  node's own \<^verbatim>\<open>offsetLeft\<close> and \<^verbatim>\<open>offsetTop\<close>, an absent one counting as \<open>0\<close>.
\<close>

theorem getPosition_no_parent:
  assumes "offsetParent (d this) = None"
  shows "getPosition d this (Array []) =
     Some (\<lparr>x = Num (or_zero (offsetLeft (d this))),
            y = Num (or_zero (offsetTop (d this)))\<rparr>, d)"
proof -
  from assms have c: "is_chain d this [this]" by simp
  show ?thesis
    by (simp add: getPosition_chain [OF c] splat_def add_all_def sub_all_def
        offsetLefts_def offsetTops_def scrollLefts_def scrollTops_def js_add_zero)
qed

theorem getPosition_no_parent_witness:
  "offsetParent (nested3 2) = None \<and>
   getPosition nested3 2 (Array []) = Some (\<lparr>x = Num (dbl 0), y = Num (dbl 15)\<rparr>, nested3)"
proof -
  have h: "offsetParent (nested3 2) = None"
    by (simp add: nested3_def blank_def)
  from getPosition_no_parent [of nested3 2, OF h]
  have "getPosition nested3 2 (Array []) = Some (\<lparr>x = Num (dbl 0), y = Num (dbl 15)\<rparr>, nested3)"
    by (simp add: nested3_attrs or_zero_simps)
  with h show ?thesis by (rule conjI)
qed

text \<open>
  C6 (as stated). Appending a container scrolled by \<open>(5, 5)\<close> changes the result by
  exactly \<open>(-5, -5)\<close>. The script subtracts with \<^verbatim>\<open>-=\<close>, which rounds: on the store
  \<open>far\<close>, with container \<open>2\<close>, scrolled by \<open>9007199254740992\<close>, already in the list,
  appending container \<open>4\<close> moves \<open>x\<close> from \<open>-9007199254740992\<close> to
  \<open>-9007199254740996\<close>, by \<open>-4\<close>.
\<close>

theorem getPosition_append_rounds:
  "is_chain far 5 [5] \<and>
   scrollLeft (far 4) = Number (dbl 5) \<and> scrollTop (far 4) = Number (dbl 5) \<and>
   getPosition far 5 (Array [2]) =
     Some (\<lparr>x = Num (dbl (- 9007199254740992)), y = Num (dbl 0)\<rparr>, far) \<and>
   getPosition far 5 (Array ([2] @ [4])) =
     Some (\<lparr>x = Num (dbl (- 9007199254740996)), y = Num (dbl (- 5))\<rparr>, far) \<and>
   int_of (dbl (- 9007199254740996)) - int_of (dbl (- 9007199254740992)) = - 4"
proof -
  have without: "getPosition far 5 (Array [2]) =
      Some (\<lparr>x = Num (dbl (- 9007199254740992)), y = Num (dbl 0)\<rparr>, far)"
    by (simp add: getPosition_chain [OF is_chain_far(2)] far_attrs eval_simps)
  have with_c: "getPosition far 5 (Array ([2] @ [4])) =
      Some (\<lparr>x = Num (dbl (- 9007199254740996)), y = Num (dbl (- 5))\<rparr>, far)"
    by (simp add: getPosition_chain [OF is_chain_far(2)] far_attrs eval_simps)
  have "int_of (dbl (- 9007199254740996)) = - 9007199254740996"
    by (rule int_of_dbl) (simp_all add: round53_examples)
  moreover have "int_of (dbl (- 9007199254740992)) = - 9007199254740992"
    by (simp add: int_of_dbl_small)
  ultimately have "int_of (dbl (- 9007199254740996)) - int_of (dbl (- 9007199254740992)) = - 4"
    by simp
  with is_chain_far(2) far_attrs(11,12) without with_c show ?thesis by blast
qed

text \<open>
  C6 (amended). For every node with a finite chain and every container list, when the
  offsets of the chain and the scroll offsets of the containers, the appended one
  included, are integers whose absolute values add up to at most \<open>2\<^sup>5\<^sup>3\<close>, in \<open>x\<close> and
  in \<open>y\<close>, both calls return, and the call with one more container appended, scrolled by
  \<open>(5, 5)\<close>, returns the point of the call without it moved by exactly \<open>(-5, -5)\<close>.
\<close>

theorem getPosition_append_container:
  assumes "is_chain d this ps"
    and "scrollLeft (d c) = Number (dbl 5)"
    and "scrollTop (d c) = Number (dbl 5)"
    and "small_ints (offsetLefts d ps @ scrollLefts d (cs @ [c]))"
    and "small_ints (offsetTops d ps @ scrollTops d (cs @ [c]))"
  shows "\<exists>a b. getPosition d this (Array cs) = Some (\<lparr>x = Num (dbl a), y = Num (dbl b)\<rparr>, d) \<and>
               getPosition d this (Array (cs @ [c])) =
                 Some (\<lparr>x = Num (dbl (a - 5)), y = Num (dbl (b - 5))\<rparr>, d) \<and>
               \<bar>a\<bar> \<le> 2 ^ 53 \<and> \<bar>a - 5\<bar> \<le> 2 ^ 53 \<and> \<bar>b\<bar> \<le> 2 ^ 53 \<and> \<bar>b - 5\<bar> \<le> 2 ^ 53"
proof -
  define a where "a = (\<Sum>v\<leftarrow>offsetLefts d ps. int_of v) - (\<Sum>v\<leftarrow>scrollLefts d cs. int_of v)"
  define b where "b = (\<Sum>v\<leftarrow>offsetTops d ps. int_of v) - (\<Sum>v\<leftarrow>scrollTops d cs. int_of v)"
  have five: "int_of (dbl 5) = 5" by (simp add: int_of_dbl_small)
  have sl: "scrollLefts d (cs @ [c]) = scrollLefts d cs @ [dbl 5]"
    by (simp add: scrollLefts_def assms(2) or_zero_simps)
  have st: "scrollTops d (cs @ [c]) = scrollTops d cs @ [dbl 5]"
    by (simp add: scrollTops_def assms(3) or_zero_simps)
  have l': "small_ints ((offsetLefts d ps @ scrollLefts d cs) @ [dbl 5])"
    using assms(4) by (simp add: sl)
  have t': "small_ints ((offsetTops d ps @ scrollTops d cs) @ [dbl 5])"
    using assms(5) by (simp add: st)
  have l: "small_ints (offsetLefts d ps @ scrollLefts d cs)"
    using l' by (rule small_ints_butlast)
  have t: "small_ints (offsetTops d ps @ scrollTops d cs)"
    using t' by (rule small_ints_butlast)
  have without: "getPosition d this (Array cs) = Some (\<lparr>x = Num (dbl a), y = Num (dbl b)\<rparr>, d)"
    using getPosition_sum [OF assms(1), of "Array cs"] l t
    by (simp add: splat_def a_def b_def)
  have with_c: "getPosition d this (Array (cs @ [c])) =
      Some (\<lparr>x = Num (dbl (a - 5)), y = Num (dbl (b - 5))\<rparr>, d)"
    using getPosition_sum [OF assms(1), of "Array (cs @ [c])"] assms(4,5)
    by (simp add: splat_def a_def b_def sl st five algebra_simps)
  have "\<bar>a\<bar> \<le> 2 ^ 53"
    unfolding a_def using l by (rule small_ints_bound)
  moreover have "\<bar>b\<bar> \<le> 2 ^ 53"
    unfolding b_def using t by (rule small_ints_bound)
  moreover have "\<bar>a - 5\<bar> \<le> 2 ^ 53"
    using small_ints_bound [OF assms(4)] by (simp add: sl five a_def algebra_simps)
  moreover have "\<bar>b - 5\<bar> \<le> 2 ^ 53"
    using small_ints_bound [OF assms(5)] by (simp add: st five b_def algebra_simps)
  ultimately show ?thesis using without with_c by blast
qed

theorem getPosition_append_container_witness:
  "is_chain nested3 0 [0, 1, 2] \<and>
   scrollLeft (nested3 3) = Number (dbl 5) \<and>
   scrollTop (nested3 3) = Number (dbl 5) \<and>
   small_ints (offsetLefts nested3 [0, 1, 2] @ scrollLefts nested3 ([4] @ [3])) \<and>
   small_ints (offsetTops nested3 [0, 1, 2] @ scrollTops nested3 ([4] @ [3])) \<and>
   getPosition nested3 0 (Array [4]) =
     Some (\<lparr>x = Num (dbl 23), y = Num (dbl (- 20))\<rparr>, nested3) \<and>
   getPosition nested3 0 (Array ([4] @ [3])) =
     Some (\<lparr>x = Num (dbl 18), y = Num (dbl (- 25))\<rparr>, nested3)"
proof -
  have h: "scrollLeft (nested3 3) = Number (dbl 5)" "scrollTop (nested3 3) = Number (dbl 5)"
    by (simp_all add: nested3_attrs)
  have l: "small_ints (offsetLefts nested3 [0, 1, 2] @ scrollLefts nested3 ([4] @ [3]))"
    by (simp add: nested3_attrs small_simps)
  have t: "small_ints (offsetTops nested3 [0, 1, 2] @ scrollTops nested3 ([4] @ [3]))"
    by (simp add: nested3_attrs small_simps)
  have without: "getPosition nested3 0 (Array [4]) =
      Some (\<lparr>x = Num (dbl 23), y = Num (dbl (- 20))\<rparr>, nested3)"
    by (simp add: getPosition_chain [OF is_chain_nested3] nested3_attrs eval_simps)
  from getPosition_append_container [of nested3 0 "[0, 1, 2]" 3 "[4]", OF is_chain_nested3 h l t]
  obtain a b where
    ab: "getPosition nested3 0 (Array [4]) = Some (\<lparr>x = Num (dbl a), y = Num (dbl b)\<rparr>, nested3)"
    and app: "getPosition nested3 0 (Array ([4] @ [3])) =
      Some (\<lparr>x = Num (dbl (a - 5)), y = Num (dbl (b - 5))\<rparr>, nested3)"
    and bounds: "\<bar>a\<bar> \<le> 2 ^ 53" "\<bar>b\<bar> \<le> 2 ^ 53"
    by blast
  from ab without have "dbl a = dbl 23" "dbl b = dbl (- 20)" by simp_all
  then have "int_of (dbl a) = int_of (dbl 23)" "int_of (dbl b) = int_of (dbl (- 20))"
    by simp_all
  with bounds have "a = 23" "b = - 20" by (simp_all add: int_of_dbl_small)
  with app have "getPosition nested3 0 (Array ([4] @ [3])) =
      Some (\<lparr>x = Num (dbl 18), y = Num (dbl (- 25))\<rparr>, nested3)"
    by simp
  with is_chain_nested3 h l t without show ?thesis by blast
qed

text \<open>
  C7. \<^verbatim>\<open>getPosition\<close> writes nothing and keeps no state: a call that returns leaves
  the store exactly as it found it, and the same call made again on the store it left
  returns the identical point.
\<close>

theorem getPosition_pure:
  assumes "getPosition d this overflown' = Some (p, d')"
  shows "d' = d \<and> getPosition d' this overflown' = Some (p, d')"
proof -
  from assms have "d' = d"
    by (auto simp: getPosition_def Let_def split: option.splits prod.splits)
  with assms show ?thesis by simp
qed

theorem getPosition_pure_witness:
  "getPosition nested3 0 (Array [3, 4]) =
     Some (\<lparr>x = Num (dbl 18), y = Num (dbl (- 25))\<rparr>, nested3) \<and>
   nested3 = nested3 \<and>
   getPosition nested3 0 (Array [3, 4]) =
     Some (\<lparr>x = Num (dbl 18), y = Num (dbl (- 25))\<rparr>, nested3)"
proof -
  have first: "getPosition nested3 0 (Array [3, 4]) =
      Some (\<lparr>x = Num (dbl 18), y = Num (dbl (- 25))\<rparr>, nested3)"
    by (simp add: getPosition_chain [OF is_chain_nested3] nested3_attrs eval_simps)
  from first getPosition_pure [OF first] show ?thesis by blast
qed

text \<open>
  C8. A single container passed in place of an array gives the same outcome as the
  one-element array of it, and no argument gives the same outcome as the empty array.
\<close>

theorem getPosition_single_container:
  "getPosition d this (Single c) = getPosition d this (Array [c]) \<and>
   getPosition d this Absent = getPosition d this (Array [])"
  by (simp add: getPosition_def splat_def)

text \<open>
  C9. For every node whose chain of \<^verbatim>\<open>offsetParent\<close> ancestors is finite, the ancestor
  loop of \<^verbatim>\<open>getPosition\<close> ends and the call returns, whatever the container argument.
\<close>

theorem getPosition_terminates:
  assumes "is_chain d this ps"
  shows "(\<exists>lt. walk d this (Num (dbl 0)) (Num (dbl 0)) = Some lt) \<and>
         (\<exists>p. getPosition d this overflown' = Some (p, d))"
  by (simp add: walk_chain [OF assms] getPosition_chain [OF assms])

theorem getPosition_terminates_witness:
  "is_chain nested3 0 [0, 1, 2] \<and>
   (\<exists>lt. walk nested3 0 (Num (dbl 0)) (Num (dbl 0)) = Some lt) \<and>
   (\<exists>p. getPosition nested3 0 (Array [3, 4]) = Some (p, nested3))"
  using is_chain_nested3
    getPosition_terminates [of nested3 0 "[0, 1, 2]" "Array [3, 4]", OF is_chain_nested3]
  by blast

text \<open>
  C10 (as stated). The outcome of \<^verbatim>\<open>getPosition\<close> is the same for every reordering of
  the container list. The script subtracts one container after the other and rounds
  each difference: on the store \<open>far\<close>, with container \<open>2\<close> scrolled by
  \<open>9007199254740992\<close> and container \<open>3\<close> by \<open>1\<close>, the list \<open>[2, 3, 3]\<close> gives
  \<open>x = -9007199254740992\<close> and the list \<open>[3, 3, 2]\<close> gives \<open>x = -9007199254740994\<close>.
\<close>

theorem getPosition_order_rounds:
  "mset [2, 3, 3] = mset [3, 3, 2 :: ref] \<and>
   getPosition far 5 (Array [2, 3, 3]) =
     Some (\<lparr>x = Num (dbl (- 9007199254740992)), y = Num (dbl 0)\<rparr>, far) \<and>
   getPosition far 5 (Array [3, 3, 2]) =
     Some (\<lparr>x = Num (dbl (- 9007199254740994)), y = Num (dbl 0)\<rparr>, far) \<and>
   int_of (dbl (- 9007199254740992)) = - 9007199254740992 \<and>
   int_of (dbl (- 9007199254740994)) = - 9007199254740994"
proof -
  have m: "mset [2, 3, 3] = mset [3, 3, 2 :: ref]" by simp
  have one: "getPosition far 5 (Array [2, 3, 3]) =
      Some (\<lparr>x = Num (dbl (- 9007199254740992)), y = Num (dbl 0)\<rparr>, far)"
    by (simp add: getPosition_chain [OF is_chain_far(2)] far_attrs eval_simps)
  have other: "getPosition far 5 (Array [3, 3, 2]) =
      Some (\<lparr>x = Num (dbl (- 9007199254740994)), y = Num (dbl 0)\<rparr>, far)"
    by (simp add: getPosition_chain [OF is_chain_far(2)] far_attrs eval_simps)
  have i1: "int_of (dbl (- 9007199254740992)) = - 9007199254740992"
    by (simp add: int_of_dbl_small)
  have i2: "int_of (dbl (- 9007199254740994)) = - 9007199254740994"
    by (rule int_of_dbl) (simp_all add: round53_examples)
  from m one other i1 i2 show ?thesis by blast
qed

text \<open>
  C10 (amended). For every node with a finite chain and every container list, when the
  offsets of the chain and the scroll offsets of the containers are integers whose
  absolute values add up to at most \<open>2\<^sup>5\<^sup>3\<close>, in \<open>x\<close> and in \<open>y\<close>, the outcome of
  \<^verbatim>\<open>getPosition\<close> is the same for every reordering of the container list, and nothing
  is deduplicated: the scroll offset of a container is subtracted as many times as the
  container is listed.
\<close>

theorem getPosition_container_order:
  assumes "is_chain d this ps"
    and "small_ints (offsetLefts d ps @ scrollLefts d cs)"
    and "small_ints (offsetTops d ps @ scrollTops d cs)"
    and "mset cs' = mset cs"
  shows "getPosition d this (Array cs') = getPosition d this (Array cs) \<and>
     getPosition d this (Array cs) =
       Some (\<lparr>x = Num (dbl ((\<Sum>p\<leftarrow>ps. int_of (or_zero (offsetLeft (d p))))
                  - (\<Sum>c\<in>set cs. int (count_list cs c) * int_of (or_zero (scrollLeft (d c)))))),
              y = Num (dbl ((\<Sum>p\<leftarrow>ps. int_of (or_zero (offsetTop (d p))))
                  - (\<Sum>c\<in>set cs. int (count_list cs c) * int_of (or_zero (scrollTop (d c))))))\<rparr>,
             d)"
proof -
  have ml: "mset (offsetLefts d ps @ scrollLefts d cs') = mset (offsetLefts d ps @ scrollLefts d cs)"
    using assms(4) by (simp add: scrollLefts_def)
  have mt: "mset (offsetTops d ps @ scrollTops d cs') = mset (offsetTops d ps @ scrollTops d cs)"
    using assms(4) by (simp add: scrollTops_def)
  have l': "small_ints (offsetLefts d ps @ scrollLefts d cs')"
    using assms(2) small_ints_mset [OF ml] by simp
  have t': "small_ints (offsetTops d ps @ scrollTops d cs')"
    using assms(3) small_ints_mset [OF mt] by simp
  have sl: "(\<Sum>c\<leftarrow>cs'. int_of (or_zero (scrollLeft (d c)))) =
      (\<Sum>c\<leftarrow>cs. int_of (or_zero (scrollLeft (d c))))"
    using assms(4) by (rule sum_list_mset_cong)
  have st: "(\<Sum>c\<leftarrow>cs'. int_of (or_zero (scrollTop (d c)))) =
      (\<Sum>c\<leftarrow>cs. int_of (or_zero (scrollTop (d c))))"
    using assms(4) by (rule sum_list_mset_cong)
  have r: "getPosition d this (Array cs) =
      Some (\<lparr>x = Num (dbl ((\<Sum>p\<leftarrow>ps. int_of (or_zero (offsetLeft (d p))))
                  - (\<Sum>c\<leftarrow>cs. int_of (or_zero (scrollLeft (d c)))))),
             y = Num (dbl ((\<Sum>p\<leftarrow>ps. int_of (or_zero (offsetTop (d p))))
                  - (\<Sum>c\<leftarrow>cs. int_of (or_zero (scrollTop (d c))))))\<rparr>, d)"
    using getPosition_sum [OF assms(1), of "Array cs"] assms(2,3)
    by (simp add: splat_def offsetLefts_def offsetTops_def scrollLefts_def scrollTops_def
        comp_def)
  have r': "getPosition d this (Array cs') =
      Some (\<lparr>x = Num (dbl ((\<Sum>p\<leftarrow>ps. int_of (or_zero (offsetLeft (d p))))
                  - (\<Sum>c\<leftarrow>cs'. int_of (or_zero (scrollLeft (d c)))))),
             y = Num (dbl ((\<Sum>p\<leftarrow>ps. int_of (or_zero (offsetTop (d p))))
                  - (\<Sum>c\<leftarrow>cs'. int_of (or_zero (scrollTop (d c))))))\<rparr>, d)"
    using getPosition_sum [OF assms(1), of "Array cs'"] l' t'
    by (simp add: splat_def offsetLefts_def offsetTops_def scrollLefts_def scrollTops_def
        comp_def)
  have same: "getPosition d this (Array cs') = getPosition d this (Array cs)"
    by (simp only: r r' sl st)
  have counted: "getPosition d this (Array cs) =
       Some (\<lparr>x = Num (dbl ((\<Sum>p\<leftarrow>ps. int_of (or_zero (offsetLeft (d p))))
                  - (\<Sum>c\<in>set cs. int (count_list cs c) * int_of (or_zero (scrollLeft (d c)))))),
              y = Num (dbl ((\<Sum>p\<leftarrow>ps. int_of (or_zero (offsetTop (d p))))
                  - (\<Sum>c\<in>set cs. int (count_list cs c) * int_of (or_zero (scrollTop (d c))))))\<rparr>,
             d)"
    by (simp only: r sum_list_count [of "\<lambda>c. int_of (or_zero (scrollLeft (d c)))" cs]
        sum_list_count [of "\<lambda>c. int_of (or_zero (scrollTop (d c)))" cs])
  from same counted show ?thesis by (rule conjI)
qed

theorem getPosition_container_order_witness:
  "is_chain nested3 0 [0, 1, 2] \<and>
   small_ints (offsetLefts nested3 [0, 1, 2] @ scrollLefts nested3 [4, 3, 4]) \<and>
   small_ints (offsetTops nested3 [0, 1, 2] @ scrollTops nested3 [4, 3, 4]) \<and>
   mset [3, 4, 4] = mset [4, 3, 4 :: ref] \<and>
   getPosition nested3 0 (Array [3, 4, 4]) = getPosition nested3 0 (Array [4, 3, 4]) \<and>
   getPosition nested3 0 (Array [4, 3, 4]) =
     Some (\<lparr>x = Num (dbl 11), y = Num (dbl (- 65))\<rparr>, nested3)"
proof -
  have l: "small_ints (offsetLefts nested3 [0, 1, 2] @ scrollLefts nested3 [4, 3, 4])"
    by (simp add: nested3_attrs small_simps)
  have t: "small_ints (offsetTops nested3 [0, 1, 2] @ scrollTops nested3 [4, 3, 4])"
    by (simp add: nested3_attrs small_simps)
  have m: "mset [3, 4, 4] = mset [4, 3, 4 :: ref]" by simp
  note inst = getPosition_container_order [OF is_chain_nested3 l t m]
  have s: "set [4, 3, 4 :: ref] = {3, 4}" by auto
  from inst have same:
    "getPosition nested3 0 (Array [3, 4, 4]) = getPosition nested3 0 (Array [4, 3, 4])"
    by (rule conjunct1)
  from inst [unfolded s] have "getPosition nested3 0 (Array [4, 3, 4]) =
      Some (\<lparr>x = Num (dbl 11), y = Num (dbl (- 65))\<rparr>, nested3)"
    by (simp add: nested3_attrs or_zero_simps int_of_dbl_small)
  with is_chain_nested3 l t m same show ?thesis by blast
qed

end
